theory Spec2Isabelle
  imports Complex_Main "HOL-Library.Word" "HOL-Library.Sublist"
begin

section \<open>JavaScript strings\<close>

text \<open>
  A JavaScript string is a sequence of UTF-16 code units. The regular expressions of
  \<^verbatim>\<open>main.js\<close> have no \<^verbatim>\<open>u\<close> flag, so they work on code units as well.
  \<open>js\<close> embeds an ASCII literal.
\<close>

type_synonym cu = "16 word"
type_synonym jsstring = "cu list"

definition js :: "string \<Rightarrow> jsstring" where
  "js s = map (\<lambda>c. of_nat (of_char c)) s"

lemma js_Nil: "js [] = []" and js_Cons: "js (c # s) = of_nat (of_char c) # js s"
  by (simp_all add: js_def)

text \<open>\<^verbatim>\<open>s.lastIndexOf(c)\<close> for a one-character needle: \<open>-1\<close> when \<open>c\<close> does not occur.\<close>

definition lastIndexOf :: "jsstring \<Rightarrow> cu \<Rightarrow> int" where
  "lastIndexOf s c =
     (if c \<in> set s then int (length s) - 1 - int (length (takeWhile (\<lambda>x. x \<noteq> c) (rev s)))
      else - 1)"

text \<open>\<^verbatim>\<open>s.substring(i)\<close>: a negative start counts as \<open>0\<close>, one beyond the end as the end.\<close>

definition substring :: "jsstring \<Rightarrow> int \<Rightarrow> jsstring" where
  "substring s i = drop (nat (max 0 i)) s"


section \<open>Backtracking regular expressions\<close>

text \<open>
  A regular expression is embedded as a backtracking matcher in continuation-passing
  style, as ECMAScript specifies it: a matcher gets the rest of the input and the captures
  so far, and calls its continuation on every way it can match, leftmost alternative
  and (for a greedy quantifier) longest repetition first. The first success is the result.
  Only the constructs that occur in \<^verbatim>\<open>main.js\<close> are defined; the quantifiers there are
  applied to single-character classes only.
\<close>

type_synonym captures = "nat \<Rightarrow> jsstring option"
type_synonym mresult = "(jsstring \<times> captures) option"
type_synonym cont = "jsstring \<Rightarrow> captures \<Rightarrow> mresult"
type_synonym matcher = "jsstring \<Rightarrow> captures \<Rightarrow> cont \<Rightarrow> mresult"

definition cls :: "(cu \<Rightarrow> bool) \<Rightarrow> matcher" where
  "cls p s c k = (case s of [] \<Rightarrow> None | x # xs \<Rightarrow> if p x then k xs c else None)"

definition chr :: "cu \<Rightarrow> matcher" where
  "chr a = cls (\<lambda>x. x = a)"

definition seq :: "matcher \<Rightarrow> matcher \<Rightarrow> matcher" where
  "seq a b s c k = a s c (\<lambda>s' c'. b s' c' k)"

definition alt :: "matcher \<Rightarrow> matcher \<Rightarrow> matcher" where
  "alt a b s c k = (case a s c k of Some r \<Rightarrow> Some r | None \<Rightarrow> b s c k)"

definition eps :: matcher where
  "eps s c k = k s c"

text \<open>\<^verbatim>\<open>x?\<close> is greedy: one \<open>x\<close> first, then none.\<close>

definition opt :: "matcher \<Rightarrow> matcher" where
  "opt a = alt a eps"

text \<open>\<^verbatim>\<open>$\<close> without the \<^verbatim>\<open>m\<close> flag: the end of the input only.\<close>

definition eoi :: matcher where
  "eoi s c k = (if s = [] then k s c else None)"

primrec lit :: "jsstring \<Rightarrow> matcher" where
  "lit [] = eps"
| "lit (a # as) = seq (chr a) (lit as)"

text \<open>\<^verbatim>\<open>[class]*\<close>, greedy: as many characters as possible, giving them back one by one.\<close>

primrec star :: "(cu \<Rightarrow> bool) \<Rightarrow> matcher" where
  "star p [] c k = k [] c"
| "star p (x # xs) c k =
     (if p x then (case star p xs c k of Some r \<Rightarrow> Some r | None \<Rightarrow> k (x # xs) c)
      else k (x # xs) c)"

text \<open>\<^verbatim>\<open>[class]*?\<close>, lazy: as few characters as possible, taking one more on failure.\<close>

primrec lazy :: "(cu \<Rightarrow> bool) \<Rightarrow> matcher" where
  "lazy p [] c k = k [] c"
| "lazy p (x # xs) c k =
     (case k (x # xs) c of Some r \<Rightarrow> Some r
      | None \<Rightarrow> if p x then lazy p xs c k else None)"

definition plus :: "(cu \<Rightarrow> bool) \<Rightarrow> matcher" where
  "plus p = seq (cls p) (star p)"

text \<open>A capture group records the part of the input its body consumed.\<close>

definition grp :: "nat \<Rightarrow> matcher \<Rightarrow> matcher" where
  "grp n a s c k = a s c (\<lambda>s' c'. k s' (c'(n := Some (take (length s - length s') s))))"

text \<open>\<^verbatim>\<open>.\<close> matches every code unit but the four line terminators.\<close>

definition lineTerminator :: "cu \<Rightarrow> bool" where
  "lineTerminator x = (x = 0x0A \<or> x = 0x0D \<or> x = 0x2028 \<or> x = 0x2029)"

definition dot :: "cu \<Rightarrow> bool" where
  "dot x = (\<not> lineTerminator x)"

text \<open>A match anchored at the start of \<open>s\<close>: the rest after the match and the captures.\<close>

definition matchAt :: "matcher \<Rightarrow> jsstring \<Rightarrow> mresult" where
  "matchAt m s = m s (\<lambda>_. None) (\<lambda>s' c'. Some (s', c'))"

text \<open>
  \<^verbatim>\<open>regex.exec\<close> tries the start positions from left to right, the end of the input
  included. The result is the matched text, the rest of the input after the match and the
  captures. None of the expressions here looks behind (\<^verbatim>\<open>^\<close>, \<^verbatim>\<open>\b\<close>, lookbehind),
  so a search from offset \<open>i\<close> of a string is a search in its suffix from \<open>i\<close>.
\<close>

fun exec :: "matcher \<Rightarrow> jsstring \<Rightarrow> (jsstring \<times> jsstring \<times> captures) option" where
  "exec m [] =
     (case matchAt m [] of Some (r, c) \<Rightarrow> Some ([], r, c) | None \<Rightarrow> None)"
| "exec m (x # xs) =
     (case matchAt m (x # xs) of
        Some (r, c) \<Rightarrow> Some (take (length (x # xs) - length r) (x # xs), r, c)
      | None \<Rightarrow> exec m xs)"

section \<open>The question identifier of a link\<close>

text \<open>\<^verbatim>\<open>/(.*)--(.*?)(?:\?|$|&)/\<close>\<close>

definition idRegex :: matcher where
  "idRegex =
     seq (grp 1 (star dot))
       (seq (lit (js ''--''))
         (seq (grp 2 (lazy dot))
           (alt (chr 0x3F) (alt eoi (chr 0x26)))))"

text \<open>
  \<^verbatim>\<open>getQuestionIdFromUrl\<close> (lines 194-198, the same at 575-579). \<open>None\<close> stands for
  \<^verbatim>\<open>undefined\<close>, the value of a capture group that took no part in the match.
\<close>

definition getQuestionIdFromUrl :: "jsstring \<Rightarrow> jsstring option" where
  "getQuestionIdFromUrl url =
     (let lastSegment = substring url (lastIndexOf url 0x2F + 1) in
      case exec idRegex lastSegment of
        Some (whole, rest, parts) \<Rightarrow> parts 2
      | None \<Rightarrow> Some (if lastSegment \<noteq> [] then lastSegment else js ''''))"

section \<open>JSON values and the host's number formatting\<close>

text \<open>
  The values that \<^verbatim>\<open>JSON.parse\<close> delivers, and a cross-frame message as far as it is
  such a value. A number carries the value of the parsed double. \<^verbatim>\<open>undefined\<close> (an absent
  field) is \<open>None\<close> of \<open>json option\<close>. An object is the list of its own properties. What
  only a message can carry (\<^verbatim>\<open>NaN\<close>, a \<^verbatim>\<open>Map\<close>, \<^verbatim>\<open>undefined\<close> inside an object) is
  left out.
\<close>

datatype json =
    JNull
  | JBool bool
  | JNum rat
  | JStr jsstring
  | JArr "json list"
  | JObj "(jsstring \<times> json) list"

text \<open>
  Property access \<^verbatim>\<open>v.k\<close> for the keys read in \<^verbatim>\<open>main.js\<close>
  (\<^verbatim>\<open>title\<close>, \<^verbatim>\<open>user\<close>, \<^verbatim>\<open>isFatebook\<close>, ...): only an object has them.
  On \<^verbatim>\<open>null\<close> the access throws; the callers below test for it first.
\<close>

fun field :: "json \<Rightarrow> jsstring \<Rightarrow> json option" where
  "field (JObj kvs) k = map_of kvs k"
| "field _ k = None"

fun truthy :: "json option \<Rightarrow> bool" where
  "truthy None = False"
| "truthy (Some JNull) = False"
| "truthy (Some (JBool b)) = b"
| "truthy (Some (JNum n)) = (n \<noteq> 0)"
| "truthy (Some (JStr s)) = (s \<noteq> [])"
| "truthy (Some (JArr _)) = True"
| "truthy (Some (JObj _)) = True"

text \<open>
  The two floating-point computations of the engine are parameters of the model:
  \<open>numberToString\<close> is \<^verbatim>\<open>String(x)\<close> for a number, and \<open>percent\<close> is the
  expression \<^verbatim>\<open>(parseFloat(v) * 100).toFixed(0)\<close> of \<^verbatim>\<open>enhanceFatebookLink\<close>.
\<close>

record host =
  numberToString :: "rat \<Rightarrow> jsstring"
  percent :: "json \<Rightarrow> jsstring"

fun joinWith :: "jsstring \<Rightarrow> jsstring list \<Rightarrow> jsstring" where
  "joinWith sep [] = []"
| "joinWith sep [x] = x"
| "joinWith sep (x # y # ys) = x @ sep @ joinWith sep (y # ys)"

text \<open>
  \<^verbatim>\<open>String(v)\<close>, as a template literal applies it. An array is joined with commas,
  \<^verbatim>\<open>null\<close> elements giving the empty string.
\<close>

fun toString :: "host \<Rightarrow> json \<Rightarrow> jsstring" where
  "toString h JNull = js ''null''"
| "toString h (JBool b) = (if b then js ''true'' else js ''false'')"
| "toString h (JNum n) = numberToString h n"
| "toString h (JStr s) = s"
| "toString h (JArr xs) =
     joinWith (js '','') (map (\<lambda>x. if x = JNull then [] else toString h x) xs)"
| "toString h (JObj kvs) = js ''[object Object]''"

definition interpolate :: "host \<Rightarrow> json option \<Rightarrow> jsstring" where
  "interpolate h v = (case v of None \<Rightarrow> js ''undefined'' | Some x \<Rightarrow> toString h x)"

section \<open>Network responses\<close>

text \<open>What the code throws and catches.\<close>

datatype error = TypeError | SyntaxError | NetworkError | HttpError nat

text \<open>
  What \<^verbatim>\<open>await fetch(url)\<close> gives: the promise rejects, or it resolves to a response
  with a status and a body; \<^verbatim>\<open>response.json()\<close> rejects on a body that is not JSON.
  \<^verbatim>\<open>response.ok\<close> is a status from 200 to 299.
\<close>

datatype body = NotJson | Json json

record response =
  status :: nat
  body :: body

datatype fetched = Rejected | Responded response


section \<open>The display text of a link\<close>

record settings =
  fatebookHost :: jsstring
  fatebookUrl :: jsstring
  apiKey :: jsstring

definition pluginSettings :: settings where
  "pluginSettings =
     \<lparr> fatebookHost = js ''fatebook.io'',
       fatebookUrl = js ''https://fatebook.io/'',
       apiKey = js ''oeslwryqqz9hs15tuzfsvs'' \<rparr>"









section \<open>What a successful match consumed\<close>
























section \<open>Links to questions in a note\<close>
















section \<open>The plugin and its environment\<close>

text \<open>
  Objects are held in stores and named by references, so that two names of one object
  see the same fields. \<open>plugin\<close> has the fields of the class \<^verbatim>\<open>FatebookPlugin\<close> and the
  part of the host that the methods read and write: the iframe elements, the workspace's
  active view, the views and editors, the console, the notices, the registered interval
  timers, the promises resolved so far and the asynchronous calls started without
  \<^verbatim>\<open>await\<close>. \<open>objectPrototypeSrc\<close> is the property \<^verbatim>\<open>src\<close> of \<^verbatim>\<open>Object.prototype\<close>, which
  every object literal inherits: \<open>None\<close> as the engine starts, for no such property.
\<close>

type_synonym ref = nat

record iframe =
  src :: jsstring
  styleDisplay :: jsstring
  styleWidth :: jsstring
  styleHeight :: jsstring

text \<open>An editor: \<^verbatim>\<open>getValue()\<close> and \<^verbatim>\<open>getCursor()\<close> as an offset into the text.\<close>

record editorObj =
  getValue :: jsstring
  getCursor :: nat

record viewObj =
  viewEditor :: "ref option"
  viewFile :: "ref option"

datatype task = EnhanceMarkdownLinks "ref option"

record plugin =
  isLoginModalOpen :: bool
  isLoggedIn :: bool
  loginCallbacks :: "ref list"
  predictWebview :: "ref option"
  questionWebview :: "ref option"
  loginWebview :: "ref option"
  elements :: "ref \<Rightarrow> iframe"
  created :: nat
  activeView :: "ref option"
  views :: "ref \<Rightarrow> viewObj"
  editors :: "ref \<Rightarrow> editorObj"
  focused :: "ref option"
  console :: "jsstring list"
  notices :: "jsstring list"
  resolved :: "ref list"
  intervals :: "ref list"
  timers :: nat
  polling :: "ref list"
  rebuilt :: "ref list"
  started :: "task list"
  objectPrototypeSrc :: "json option"

text \<open>
  A state as \<^verbatim>\<open>onload\<close> (lines 17-60) leaves it when the login check fails and one note
  with the text \<open>note\<close> is open: the two embeds are elements 0 and 1, the note's view,
  editor and file have the reference 0. \<open>x\<close> is the rest of the world, for a fetch to
  read and write.
\<close>

definition afterOnload :: "jsstring \<Rightarrow> 'a \<Rightarrow> 'a plugin_scheme" where
  "afterOnload note x =
     \<lparr> isLoginModalOpen = False, isLoggedIn = False, loginCallbacks = [],
       predictWebview = Some 0, questionWebview = Some 1, loginWebview = None,
       elements =
         (\<lambda>r. \<lparr> src = fatebookUrl pluginSettings @ js ''embed/''
                        @ (if r = 0 then js ''predict-modal'' else js ''question-loader''),
                  styleDisplay = js '''', styleWidth = js '''', styleHeight = js '''' \<rparr>),
       created = 2,
       activeView = Some 0,
       views = (\<lambda>r. \<lparr> viewEditor = Some 0, viewFile = Some 0 \<rparr>),
       editors = (\<lambda>r. \<lparr> getValue = note, getCursor = 0 \<rparr>),
       focused = None, console = [], notices = [], resolved = [], intervals = [],
       timers = 0, polling = [], rebuilt = [], started = [], objectPrototypeSrc = None,
       \<dots> = x \<rparr>"


section \<open>Rewriting the links of a note\<close>



text \<open>
  \<^verbatim>\<open>editor.replaceRange(text, from, to)\<close> with the two positions as offsets
  (\<^verbatim>\<open>offsetToPos\<close> of an offset).
\<close>

definition replaceRange :: "jsstring \<Rightarrow> nat \<Rightarrow> nat \<Rightarrow> jsstring \<Rightarrow> jsstring" where
  "replaceRange t i j s = take i s @ t @ drop j s"

definition setValue :: "ref \<Rightarrow> jsstring \<Rightarrow> 'a plugin_scheme \<Rightarrow> 'a plugin_scheme" where
  "setValue ed s w = w\<lparr>editors := (editors w)(ed := (editors w ed)\<lparr>getValue := s\<rparr>)\<rparr>"



section \<open>Messages from the embedded pages\<close>

text \<open>
  A method that throws keeps the changes it made before: an outcome carries the state
  in both cases.
\<close>

datatype 'a outcome = Returned 'a | Thrown error 'a

definition andThen :: "'a outcome \<Rightarrow> ('a \<Rightarrow> 'a outcome) \<Rightarrow> 'a outcome" where
  "andThen r f = (case r of Returned s \<Rightarrow> f s | Thrown e s \<Rightarrow> Thrown e s)"

definition setElement :: "ref \<Rightarrow> (iframe \<Rightarrow> iframe) \<Rightarrow> 'a plugin_scheme \<Rightarrow> 'a plugin_scheme" where
  "setElement r f s = s\<lparr>elements := (elements s)(r := f (elements s r))\<rparr>"

definition consoleLog :: "jsstring \<Rightarrow> 'a plugin_scheme \<Rightarrow> 'a plugin_scheme" where
  "consoleLog line s = s\<lparr>console := console s @ [line]\<rparr>"

text \<open>
  \<^verbatim>\<open>getWebviewByEmbedId\<close> (lines 119-126). \<^verbatim>\<open>webviews[embedId]\<close> turns \<^verbatim>\<open>embedId\<close> into
  a property key by \<^verbatim>\<open>String\<close> and reads the table, an object literal: one of its three
  own properties, or else a property that it inherits from \<^verbatim>\<open>Object.prototype\<close>: one of
  the built-in ones, or the \<^verbatim>\<open>src\<close> that an earlier message has put there. \<open>None\<close> is the
  \<^verbatim>\<open>null\<close> returned for a missing or falsy entry.
\<close>

datatype target = Element ref | Builtin jsstring | Inherited json

definition objectPrototypeNames :: "jsstring list" where
  "objectPrototypeNames =
     [js ''constructor'', js ''__defineGetter__'', js ''__defineSetter__'',
      js ''hasOwnProperty'', js ''__lookupGetter__'', js ''__lookupSetter__'',
      js ''isPrototypeOf'', js ''propertyIsEnumerable'', js ''toString'', js ''valueOf'',
      js ''__proto__'', js ''toLocaleString'']"

definition getWebviewByEmbedId :: "host \<Rightarrow> json option \<Rightarrow> 'a plugin_scheme \<Rightarrow> target option" where
  "getWebviewByEmbedId h embedId s =
     (let webviews =
        [(js ''predict-modal'', predictWebview s),
         (js ''question-loader'', questionWebview s),
         (js ''login'', loginWebview s)];
          key = interpolate h embedId
      in case map_of webviews key of
           Some webview \<Rightarrow> map_option Element webview
         | None \<Rightarrow>
             if key \<in> set objectPrototypeNames then Some (Builtin key)
             else if key = js ''src'' \<and> truthy (objectPrototypeSrc s)
               then map_option Inherited (objectPrototypeSrc s)
             else None)"

text \<open>\<^verbatim>\<open>closePredictionModal\<close> (lines 144-155).\<close>

definition closePredictionModal :: "'a plugin_scheme \<Rightarrow> 'a plugin_scheme outcome" where
  "closePredictionModal s0 =
     (let s1 = consoleLog (js ''Closing prediction modal'') s0;
          s2 = (case predictWebview s1 of
                  Some w \<Rightarrow> setElement w (\<lambda>e. e\<lparr>styleDisplay := js ''none''\<rparr>) s1
                | None \<Rightarrow> consoleLog (js ''Prediction webview not found'') s1)
      in case activeView s2 of
           None \<Rightarrow> Returned s2
         | Some v \<Rightarrow>
             (case viewEditor (views s2 v) of
                None \<Rightarrow> Thrown TypeError s2
              | Some ed \<Rightarrow> Returned (s2\<lparr>focused := Some ed\<rparr>)))"

text \<open>
  \<^verbatim>\<open>handlePredictionCreated\<close> (lines 157-165): the link is inserted at the cursor, and
  \<^verbatim>\<open>enhanceMarkdownLinks\<close> is started without \<^verbatim>\<open>await\<close>.
\<close>

definition handlePredictionCreated ::
  "host \<Rightarrow> json option \<Rightarrow> 'a plugin_scheme \<Rightarrow> 'a plugin_scheme outcome" where
  "handlePredictionCreated h predictionLink s =
     (case activeView s of
        None \<Rightarrow> Returned s
      | Some v \<Rightarrow>
          (case viewEditor (views s v) of
             None \<Rightarrow> Thrown TypeError s
           | Some ed \<Rightarrow>
               (let cursor = getCursor (editors s ed);
                    inserted = js ''[]('' @ interpolate h predictionLink @ js '')'';
                    s1 = setValue ed (replaceRange inserted cursor cursor (getValue (editors s ed))) s
                in Returned (s1\<lparr>started := started s1 @ [EnhanceMarkdownLinks (Some v)]\<rparr>))))"

text \<open>
  \<^verbatim>\<open>handleIframeMessage\<close> (lines 91-117). \<open>data\<close> is the \<^verbatim>\<open>data\<close> of the event.
  After the first line \<open>data\<close> is an object; \<^verbatim>\<open>rest\<close> has its properties other than
  \<^verbatim>\<open>action\<close> and \<^verbatim>\<open>embedId\<close>, so \<^verbatim>\<open>rest.predictionLink\<close>, \<^verbatim>\<open>rest.box\<close> and
  \<^verbatim>\<open>rest.src\<close> are those of \<open>data\<close>.
\<close>

definition isFatebook :: "json option \<Rightarrow> json option" where
  "isFatebook data =
     (case data of None \<Rightarrow> None | Some JNull \<Rightarrow> None | Some d \<Rightarrow> field d (js ''isFatebook''))"

text \<open>
  The two assignments of lines 107-108, storing the strings assigned. Only an element
  has a \<^verbatim>\<open>style\<close>, and reading \<^verbatim>\<open>rest.box.width\<close> throws when there is no box.
\<close>

definition resizeIframe ::
  "host \<Rightarrow> json option \<Rightarrow> target \<Rightarrow> 'a plugin_scheme \<Rightarrow> 'a plugin_scheme outcome" where
  "resizeIframe h box iframe s =
     (case iframe of
        Element r \<Rightarrow>
          (case box of
             None \<Rightarrow> Thrown TypeError s
           | Some b \<Rightarrow>
               if b = JNull then Thrown TypeError s
               else
                 Returned
                   (setElement r
                      (\<lambda>e. e\<lparr>styleWidth := interpolate h (field b (js ''width'')) @ js ''px'',
                              styleHeight := interpolate h (field b (js ''height'')) @ js ''px''\<rparr>)
                      s))
      | _ \<Rightarrow> Thrown TypeError s)"

text \<open>
  \<^verbatim>\<open>iframe.src = rest.src\<close> (line 110). On an element the value is stored as a string.
  On \<^verbatim>\<open>Object.prototype\<close> (found under \<^verbatim>\<open>__proto__\<close>) the assignment makes a property
  that every object inherits. On another built-in and on an inherited object it makes a
  property that nothing in the plugin reads. A class body is strict code, so on an
  inherited string, number or boolean it throws.
\<close>

definition assignSrc ::
  "host \<Rightarrow> json option \<Rightarrow> target \<Rightarrow> 'a plugin_scheme \<Rightarrow> 'a plugin_scheme outcome" where
  "assignSrc h v iframe s =
     (case iframe of
        Element r \<Rightarrow> Returned (setElement r (\<lambda>e. e\<lparr>src := interpolate h v\<rparr>) s)
      | Builtin name \<Rightarrow>
          Returned (if name = js ''__proto__'' then s\<lparr>objectPrototypeSrc := v\<rparr> else s)
      | Inherited x \<Rightarrow>
          (case x of
             JArr _ \<Rightarrow> Returned s
           | JObj _ \<Rightarrow> Returned s
           | _ \<Rightarrow> Thrown TypeError s))"

text \<open>
  \<^verbatim>\<open>rest.src\<close>: the property of the message, or else the one that \<^verbatim>\<open>rest\<close> inherits.
\<close>

definition restSrc :: "json \<Rightarrow> 'a plugin_scheme \<Rightarrow> json option" where
  "restSrc d s = (case field d (js ''src'') of Some v \<Rightarrow> Some v | None \<Rightarrow> objectPrototypeSrc s)"

definition handleIframeMessage ::
  "host \<Rightarrow> json option \<Rightarrow> 'a plugin_scheme \<Rightarrow> 'a plugin_scheme outcome" where
  "handleIframeMessage h data s =
     (if \<not> truthy (isFatebook data) then Returned s
      else
        (case data of
           None \<Rightarrow> Returned s
         | Some d \<Rightarrow>
            (let action = field d (js ''action'');
                 embedId = field d (js ''embedId'')
             in if action = Some (JStr (js ''prediction_cancel'')) then closePredictionModal s
                else if action = Some (JStr (js ''prediction_create_success'')) then
                  andThen (handlePredictionCreated h (field d (js ''predictionLink'')) s)
                    closePredictionModal
                else if action = Some (JStr (js ''load-url'')) then
                  (case getWebviewByEmbedId h embedId s of
                     None \<Rightarrow> Returned s
                   | Some iframe \<Rightarrow>
                       if action = Some (JStr (js ''resize_iframe'')) then
                         resizeIframe h (field d (js ''box'')) iframe s
                       else if action = Some (JStr (js ''load-url'')) then
                         assignSrc h (restSrc d s) iframe s
                       else Returned s)
                else
                  Returned (consoleLog (js ''Unhandled Fatebook action: '' @ interpolate h action) s))))"

section \<open>The login check\<close>

text \<open>
  \<^verbatim>\<open>checkLoginStatus\<close> after its \<^verbatim>\<open>await\<close>. The earlier copy (lines 238-247) asks for a
  question with the session's credentials and reads the status; the later copy (lines
  622-631) asks the session endpoint and reads the \<^verbatim>\<open>user\<close> field of the JSON. Both
  \<^verbatim>\<open>catch\<close> every error and then clear the flag.
\<close>

definition checkLoginStatus_238 :: "fetched \<Rightarrow> 'a plugin_scheme \<Rightarrow> 'a plugin_scheme" where
  "checkLoginStatus_238 f s =
     (case f of
        Rejected \<Rightarrow> s\<lparr>isLoggedIn := False\<rparr>
      | Responded response \<Rightarrow> s\<lparr>isLoggedIn := (status response \<noteq> 401)\<rparr>)"

definition checkLoginStatus_622 :: "fetched \<Rightarrow> 'a plugin_scheme \<Rightarrow> 'a plugin_scheme" where
  "checkLoginStatus_622 f s =
     (case f of
        Rejected \<Rightarrow> s\<lparr>isLoggedIn := False\<rparr>
      | Responded response \<Rightarrow>
          (case body response of
             NotJson \<Rightarrow> s\<lparr>isLoggedIn := False\<rparr>
           | Json data \<Rightarrow>
               if data = JNull then s\<lparr>isLoggedIn := False\<rparr>
               else s\<lparr>isLoggedIn := (field data (js ''user'') \<noteq> None)\<rparr>))"

section \<open>The login modal and its polling timer\<close>

text \<open>
  \<^verbatim>\<open>setupWebview(type)\<close> (lines 62-71): a new iframe element, appended to the document.
\<close>

definition setupWebview :: "jsstring \<Rightarrow> 'a plugin_scheme \<Rightarrow> ref \<times> 'a plugin_scheme" where
  "setupWebview type s =
     (let webview = created s;
          element =
            \<lparr> src = fatebookUrl pluginSettings
                      @ (if type = js ''login'' then js '''' else js ''embed/'') @ type,
              styleDisplay = js '''', styleWidth = js '''', styleHeight = js '''' \<rparr>
      in (webview, s\<lparr>elements := (elements s)(webview := element), created := Suc (created s)\<rparr>))"

text \<open>
  \<^verbatim>\<open>openLoginModal\<close> (lines 261-290) up to its end: \<^verbatim>\<open>setInterval\<close> registers a timer,
  named by the number of timers made before it.
\<close>

definition openLoginModal :: "'a plugin_scheme \<Rightarrow> 'a plugin_scheme" where
  "openLoginModal s =
     (if isLoginModalOpen s \<or> isLoggedIn s then s
      else
        (let s1 = s\<lparr>isLoginModalOpen := True\<rparr>;
             (login, s2) =
               (case loginWebview s1 of
                  Some w \<Rightarrow> (w, s1)
                | None \<Rightarrow>
                    (case setupWebview (js ''login'') s1 of
                       (w, s') \<Rightarrow> (w, s'\<lparr>loginWebview := Some w\<rparr>)));
             s3 = setElement login
                    (\<lambda>e. e\<lparr>styleDisplay := js ''block'', styleWidth := js ''400px'',
                            styleHeight := js ''1000px''\<rparr>) s2;
             checkLoginInterval = timers s3
         in s3\<lparr>intervals := intervals s3 @ [checkLoginInterval], timers := Suc (timers s3)\<rparr>))"

text \<open>
  The callback of the timer (lines 275-289) from the point where its
  \<^verbatim>\<open>await this.checkLoginStatus()\<close> resumes: \<open>f\<close> is what the check fetched. Between the
  assignment of the flag in \<^verbatim>\<open>checkLoginStatus\<close> and the test of it here no other task
  runs.
\<close>

definition pollResumes :: "ref \<Rightarrow> fetched \<Rightarrow> 'a plugin_scheme \<Rightarrow> 'a plugin_scheme outcome" where
  "pollResumes checkLoginInterval f s0 =
     (let s1 = checkLoginStatus_238 f s0 in
      if isLoggedIn s1 then
        (let s2 = s1\<lparr>intervals := removeAll checkLoginInterval (intervals s1)\<rparr> in
         case loginWebview s2 of
           None \<Rightarrow> Thrown TypeError s2
         | Some login \<Rightarrow>
             (let s3 = setElement login (\<lambda>e. e\<lparr>styleDisplay := js ''none''\<rparr>) s2;
                  s4 = s3\<lparr>isLoginModalOpen := False,
                          notices := notices s3 @ [js ''Login successful'']\<rparr>;
                  s5 = s4\<lparr>resolved := resolved s4 @ loginCallbacks s4\<rparr>;
                  s6 = s5\<lparr>loginCallbacks := []\<rparr>
              in case activeView s6 of
                   None \<Rightarrow> Returned s6
                 | Some v \<Rightarrow> Returned (s6\<lparr>rebuilt := rebuilt s6 @ [v]\<rparr>)))
      else Returned s1)"

text \<open>
  \<^verbatim>\<open>ensureLoggedIn\<close> (lines 249-259) from the point where its check resumes. \<open>p\<close> names
  the promise that the caller awaits: it is resolved at once when the check finds a
  login, and queued otherwise.
\<close>

definition ensureLoggedIn :: "ref \<Rightarrow> fetched \<Rightarrow> 'a plugin_scheme \<Rightarrow> 'a plugin_scheme" where
  "ensureLoggedIn p f s0 =
     (let s1 = checkLoginStatus_238 f s0 in
      if \<not> isLoggedIn s1 then
        (let s2 = s1\<lparr>loginCallbacks := loginCallbacks s1 @ [p]\<rparr> in
         if \<not> isLoginModalOpen s2 then openLoginModal s2 else s2)
      else s1\<lparr>resolved := resolved s1 @ [p]\<rparr>)"

text \<open>
  The events of the login flow, as the event loop runs them one after the other. A timer
  fires only while it is registered; its callback then waits for its fetch, and several
  callbacks of one timer can wait at the same time.
\<close>

datatype event =
    CheckReturns fetched
  | EnsureReturns ref fetched
  | OpenLoginModal
  | TimerFires ref
  | PollReturns ref fetched

definition outcomeState :: "'a outcome \<Rightarrow> 'a" where
  "outcomeState r = (case r of Returned s \<Rightarrow> s | Thrown e s \<Rightarrow> s)"

fun step :: "event \<Rightarrow> 'a plugin_scheme \<Rightarrow> 'a plugin_scheme option" where
  "step (CheckReturns f) s = Some (checkLoginStatus_238 f s)"
| "step (EnsureReturns p f) s = Some (ensureLoggedIn p f s)"
| "step OpenLoginModal s = Some (openLoginModal s)"
| "step (TimerFires t) s =
     (if t \<in> set (intervals s) then Some (s\<lparr>polling := polling s @ [t]\<rparr>) else None)"
| "step (PollReturns t f) s =
     (if t \<in> set (polling s)
      then Some (outcomeState (pollResumes t f (s\<lparr>polling := remove1 t (polling s)\<rparr>)))
      else None)"

fun run :: "event list \<Rightarrow> 'a plugin_scheme \<Rightarrow> 'a plugin_scheme option" where
  "run [] s = Some s"
| "run (e # es) s = (case step e s of None \<Rightarrow> None | Some s' \<Rightarrow> run es s')"

text \<open>The state in which \<^verbatim>\<open>onload\<close> leaves the login fields (lines 26-28 and 43).\<close>

definition loaded :: "'a plugin_scheme \<Rightarrow> bool" where
  "loaded s \<longleftrightarrow>
     \<not> isLoginModalOpen s \<and> loginCallbacks s = [] \<and> loginWebview s = None
     \<and> intervals s = [] \<and> polling s = [] \<and> timers s = 0"

section \<open>The debounced pass\<close>

text \<open>
  \<^verbatim>\<open>debounce(func, wait)\<close> (lines 4-14). The state has the closure's variable
  \<^verbatim>\<open>timeout\<close>, the host's clock in milliseconds and its timeouts that are set and have
  neither fired nor been cleared, each with its due time and the arguments that its
  \<^verbatim>\<open>later\<close> holds. The trace lists the calls of the wrapper and the runs of \<open>func\<close>.
\<close>

datatype 'a observed = Called nat 'a | Ran nat 'a

record 'a debounced =
  now :: nat
  timeout :: "nat option"
  pending :: "(nat \<times> nat \<times> 'a) list"
  timeoutsMade :: nat
  trace :: "'a observed list"

definition clearTimeout :: "nat option \<Rightarrow> 'a debounced \<Rightarrow> 'a debounced" where
  "clearTimeout t d =
     (case t of
        None \<Rightarrow> d
      | Some i \<Rightarrow> d\<lparr>pending := filter (\<lambda>(j, due, args). j \<noteq> i) (pending d)\<rparr>)"

definition setTimeout :: "'a \<Rightarrow> nat \<Rightarrow> 'a debounced \<Rightarrow> nat \<times> 'a debounced" where
  "setTimeout args wait d =
     (timeoutsMade d,
      d\<lparr>pending := pending d @ [(timeoutsMade d, now d + wait, args)],
        timeoutsMade := Suc (timeoutsMade d)\<rparr>)"

definition executedFunction :: "nat \<Rightarrow> 'a \<Rightarrow> 'a debounced \<Rightarrow> 'a debounced" where
  "executedFunction wait args d0 =
     (let d1 = d0\<lparr>trace := trace d0 @ [Called (now d0) args]\<rparr>;
          d2 = clearTimeout (timeout d1) d1
      in case setTimeout args wait d2 of (t, d3) \<Rightarrow> d3\<lparr>timeout := Some t\<rparr>)"

definition later :: "'a \<Rightarrow> 'a debounced \<Rightarrow> 'a debounced" where
  "later args d0 =
     (let d1 = clearTimeout (timeout d0) d0
      in d1\<lparr>trace := trace d1 @ [Ran (now d1) args]\<rparr>)"

text \<open>
  What the event loop can do: let time pass, call the wrapper, or run a timeout that is
  due (not before its delay has passed, possibly later). A timeout leaves the host's
  list when it fires.
\<close>

datatype 'a action = Advance nat | Call 'a | Fire nat

fun act :: "nat \<Rightarrow> 'a action \<Rightarrow> 'a debounced \<Rightarrow> 'a debounced option" where
  "act wait (Advance n) d = Some (d\<lparr>now := now d + n\<rparr>)"
| "act wait (Call args) d = Some (executedFunction wait args d)"
| "act wait (Fire i) d =
     (case find (\<lambda>(j, due, args). j = i) (pending d) of
        None \<Rightarrow> None
      | Some (j, due, args) \<Rightarrow>
          if due \<le> now d
          then Some (later args (d\<lparr>pending := filter (\<lambda>(j, due, args). j \<noteq> i) (pending d)\<rparr>))
          else None)"

fun acts :: "nat \<Rightarrow> 'a action list \<Rightarrow> 'a debounced \<Rightarrow> 'a debounced option" where
  "acts wait [] d = Some d"
| "acts wait (a # as) d = (case act wait a d of None \<Rightarrow> None | Some d' \<Rightarrow> acts wait as d')"

definition fresh :: "nat \<Rightarrow> 'a debounced" where
  "fresh t = \<lparr> now = t, timeout = None, pending = [], timeoutsMade = 0, trace = [] \<rparr>"

section \<open>The identifier that \<open>getQuestionIdFromUrl\<close> returns\<close>

lemmas rx = cls_def chr_def seq_def alt_def eps_def opt_def eoi_def plus_def grp_def matchAt_def

lemma lastSegment_whole: "c \<notin> set u \<Longrightarrow> substring u (lastIndexOf u c + 1) = u"
  by (simp add: substring_def lastIndexOf_def)

lemma lastSegment_after:
  assumes "c \<notin> set seg"
  shows "substring (pre @ c # seg) (lastIndexOf (pre @ c # seg) c + 1) = seg"
proof -
  have "takeWhile (\<lambda>x. x \<noteq> c) (rev seg @ c # rev pre) = rev seg"
    using assms by (subst takeWhile_append2) auto
  then have "lastIndexOf (pre @ c # seg) c = int (length pre)"
    by (simp add: lastIndexOf_def)
  then show ?thesis by (simp add: substring_def nat_add_distrib)
qed

lemma star_none: "(\<And>t. suffix t s \<Longrightarrow> k t c = None) \<Longrightarrow> star p s c k = None"
proof (induction s)
  case Nil
  then show ?case by simp
next
  case (Cons x xs)
  have "star p xs c k = None"
    by (rule Cons.IH) (simp add: Cons.prems suffix_Cons)
  moreover have "k (x # xs) c = None" by (simp add: Cons.prems)
  ultimately show ?case by simp
qed

lemma star_here:
  assumes "\<And>t'. strict_suffix t' t \<Longrightarrow> k t' c = None"
  shows "star p t c k = k t c"
proof (cases t)
  case Nil
  then show ?thesis by simp
next
  case (Cons x xs)
  have "star p xs c k = None"
  proof (rule star_none)
    fix u assume "suffix u xs"
    then have "strict_suffix u t" unfolding Cons
      by (auto simp: strict_suffix_def suffix_Cons dest: suffix_length_le)
    then show "k u c = None" by (rule assms)
  qed
  then show ?thesis by (simp add: Cons)
qed

lemma star_last:
  assumes "\<forall>x\<in>set a. p x" and "k t c = Some r"
    and "\<And>t'. strict_suffix t' t \<Longrightarrow> k t' c = None"
  shows "star p (a @ t) c k = Some r"
  using assms(1)
proof (induction a)
  case Nil
  then show ?case using star_here [of t k c p] assms by simp
next
  case (Cons x a)
  then show ?case by simp
qed

text \<open>
  The characters that \<^verbatim>\<open>(.*?)\<close> takes before \<^verbatim>\<open>(?:\?|$|&)\<close> can match, and the
  continuations of \<open>idRegex\<close> after its first and after its second group.
\<close>

definition notQA :: "cu \<Rightarrow> bool" where
  "notQA x = (x \<noteq> 0x3F \<and> x \<noteq> 0x26)"

definition idTail :: cont where
  "idTail = (\<lambda>s3 c3. alt (chr 0x3F) (alt eoi (chr 0x26)) s3 c3 (\<lambda>s' c'. Some (s', c')))"

definition idAfter :: "jsstring \<Rightarrow> cont" where
  "idAfter s = (\<lambda>s1 c1. lit (js ''--'') s1 (c1(1 := Some (take (length s - length s1) s)))
     (\<lambda>s2 c2. grp 2 (lazy dot) s2 c2 idTail))"

lemma idTail_Some: "s = [] \<or> \<not> notQA (hd s) \<Longrightarrow> \<exists>r. idTail s c = Some (r, c)"
  by (cases s) (auto simp: idTail_def rx notQA_def)

lemma idTail_None: "s \<noteq> [] \<Longrightarrow> notQA (hd s) \<Longrightarrow> idTail s c = None"
  by (cases s) (auto simp: idTail_def rx notQA_def)

lemma lazy_takeWhile:
  assumes "\<forall>x\<in>set b. p x"
  shows "\<exists>r. lazy p b c (\<lambda>s' c'. idTail s' (f s' c')) = Some (r, f (dropWhile notQA b) c)"
  using assms
proof (induction b)
  case Nil
  then show ?case using idTail_Some [of "[]"] by simp
next
  case (Cons x b)
  show ?case
  proof (cases "notQA x")
    case True
    then have "idTail (x # b) (f (x # b) c) = None" by (simp add: idTail_None)
    then show ?thesis using Cons True by simp
  next
    case False
    then obtain r where "idTail (x # b) (f (x # b) c) = Some (r, f (x # b) c)"
      using idTail_Some [of "x # b"] by auto
    then show ?thesis using False by simp
  qed
qed

lemma take_takeWhile: "take (length b - length (dropWhile P b)) b = takeWhile P b"
proof -
  have "length b = length (takeWhile P b) + length (dropWhile P b)"
    by (metis length_append takeWhile_dropWhile_id)
  moreover have "take (length (takeWhile P b)) b = takeWhile P b"
    by (metis append_eq_conv_conj takeWhile_dropWhile_id)
  ultimately show ?thesis by simp
qed

lemma matchAt_idRegex: "matchAt idRegex s = star dot s (\<lambda>_. None) (idAfter s)"
  by (simp add: idRegex_def matchAt_def idAfter_def idTail_def seq_def grp_def)

lemma idAfter_None: "\<not> prefix (js ''--'') t \<Longrightarrow> idAfter s t c = None"
  by (cases t; cases "tl t") (auto simp: idAfter_def js_Nil js_Cons rx)

lemma idAfter_Some:
  assumes "\<forall>x\<in>set b. dot x"
  shows "\<exists>r c'. idAfter s (js ''--'' @ b) c = Some (r, c') \<and> c' 2 = Some (takeWhile notQA b)"
proof -
  let ?c1 = "c(1 := Some (take (length s - length (js ''--'' @ b)) s))"
  obtain r where "lazy dot b ?c1 (\<lambda>s' c'. idTail s' (c'(2 := Some (take (length b - length s') b))))
      = Some (r, ?c1(2 := Some (take (length b - length (dropWhile notQA b)) b)))"
    using lazy_takeWhile [OF assms, of ?c1 "\<lambda>s' c'. c'(2 := Some (take (length b - length s') b))"]
    by auto
  then show ?thesis
    by (simp add: idAfter_def js_Nil js_Cons rx take_takeWhile)
qed

lemma no_later_separator:
  assumes "\<not> sublist t s" and "suffix u s"
  shows "\<not> prefix t u"
  using assms by (meson prefix_imp_sublist sublist_order.order.trans suffix_imp_sublist)

lemma matchAt_idRegex_Some:
  assumes "\<forall>x\<in>set (a @ js ''--'' @ b). dot x" and "\<not> sublist (js ''--'') (0x2D # b)"
  shows "\<exists>r c'. matchAt idRegex (a @ js ''--'' @ b) = Some (r, c') \<and> c' 2 = Some (takeWhile notQA b)"
proof -
  let ?s = "a @ js ''--'' @ b"
  obtain r c' where 1: "idAfter ?s (js ''--'' @ b) (\<lambda>_. None) = Some (r, c')"
    and 2: "c' 2 = Some (takeWhile notQA b)"
    using idAfter_Some [of b ?s "\<lambda>_. None"] assms(1) by auto
  have 3: "idAfter ?s t' (\<lambda>_. None) = None" if "strict_suffix t' (js ''--'' @ b)" for t'
  proof (rule idAfter_None)
    from that have "suffix t' (0x2D # b)"
      by (auto simp: strict_suffix_def js_Nil js_Cons suffix_Cons)
    then show "\<not> prefix (js ''--'') t'"
      by (rule no_later_separator [OF assms(2)])
  qed
  have "star dot ?s (\<lambda>_. None) (idAfter ?s) = Some (r, c')"
    using assms(1) by (intro star_last 1 3) auto
  then show ?thesis using 2 by (simp add: matchAt_idRegex)
qed

lemma matchAt_idRegex_None:
  assumes "\<not> sublist (js ''--'') s"
  shows "matchAt idRegex s = None"
  unfolding matchAt_idRegex
proof (rule star_none)
  fix t assume "suffix t s"
  then have "\<not> prefix (js ''--'') t"
    by (rule no_later_separator [OF assms])
  then show "idAfter s t (\<lambda>_. None) = None" by (rule idAfter_None)
qed

lemma exec_idRegex_None: "\<not> sublist (js ''--'') s \<Longrightarrow> exec idRegex s = None"
proof (induction s)
  case Nil
  then show ?case by (simp add: matchAt_idRegex_None)
next
  case (Cons x xs)
  then have "\<not> sublist (js ''--'') xs" by (auto simp: sublist_Cons_right)
  then show ?case using Cons by (simp add: matchAt_idRegex_None)
qed

lemma exec_idRegex_Some:
  assumes "\<forall>x\<in>set (a @ js ''--'' @ b). dot x" and "\<not> sublist (js ''--'') (0x2D # b)"
  shows "\<exists>w r c'. exec idRegex (a @ js ''--'' @ b) = Some (w, r, c') \<and> c' 2 = Some (takeWhile notQA b)"
proof -
  obtain r c' where "matchAt idRegex (a @ js ''--'' @ b) = Some (r, c')" "c' 2 = Some (takeWhile notQA b)"
    using matchAt_idRegex_Some [OF assms] by auto
  then show ?thesis by (cases "a @ js ''--'' @ b") auto
qed

lemma last_separator:
  assumes "sublist (js ''--'') s"
  shows "\<exists>a b. s = a @ js ''--'' @ b \<and> \<not> sublist (js ''--'') (0x2D # b)"
  using assms
proof (induction s)
  case Nil
  then show ?case by (simp add: js_Cons)
next
  case (Cons x xs)
  show ?case
  proof (cases "sublist (js ''--'') xs")
    case True
    then obtain a b where "xs = a @ js ''--'' @ b" "\<not> sublist (js ''--'') (0x2D # b)"
      using Cons.IH by blast
    then have "x # xs = (x # a) @ js ''--'' @ b \<and> \<not> sublist (js ''--'') (0x2D # b)" by simp
    then show ?thesis by blast
  next
    case False
    with Cons.prems have "prefix (js ''--'') (x # xs)" by (simp add: sublist_Cons_right)
    then obtain b where b: "x # xs = js ''--'' @ b" by (auto simp: prefix_def)
    then have "xs = 0x2D # b" by (simp add: js_Cons js_Nil)
    with False b have "x # xs = [] @ js ''--'' @ b \<and> \<not> sublist (js ''--'') (0x2D # b)" by simp
    then show ?thesis by blast
  qed
qed

text \<open>
  C3 (amended). Let \<open>seg\<close> be the part of the URL after its last \<open>/\<close> (the whole URL when
  it has none), and let \<open>seg\<close> contain no line terminator. If \<open>seg = a @ ''--'' @ b\<close> with
  no further \<open>--\<close> starting after that one, the function returns \<open>b\<close> up to its first
  \<open>?\<close> or \<open>&\<close>; such \<open>a\<close> and \<open>b\<close> exist whenever \<open>seg\<close> contains \<open>--\<close>. If \<open>seg\<close> does
  not contain \<open>--\<close>, the function returns \<open>seg\<close>, which is the empty string when \<open>seg\<close> is
  empty.
\<close>

theorem getQuestionIdFromUrl_identifier:
  assumes "url = seg \<or> url = pre @ 0x2F # seg"
    and "0x2F \<notin> set seg"
    and "\<forall>x\<in>set seg. \<not> lineTerminator x"
  shows "(\<forall>a b. seg = a @ js ''--'' @ b \<and> \<not> sublist (js ''--'') (0x2D # b) \<longrightarrow>
            getQuestionIdFromUrl url = Some (takeWhile (\<lambda>x. x \<noteq> 0x3F \<and> x \<noteq> 0x26) b))
       \<and> (sublist (js ''--'') seg \<longrightarrow>
            (\<exists>a b. seg = a @ js ''--'' @ b \<and> \<not> sublist (js ''--'') (0x2D # b)))
       \<and> (\<not> sublist (js ''--'') seg \<longrightarrow> getQuestionIdFromUrl url = Some seg)"
proof -
  have seg: "substring url (lastIndexOf url 0x2F + 1) = seg"
    using assms(1,2) lastSegment_whole [of "0x2F" seg] lastSegment_after [of "0x2F" seg pre]
    by auto
  have 1: "getQuestionIdFromUrl url = Some (takeWhile (\<lambda>x. x \<noteq> 0x3F \<and> x \<noteq> 0x26) b)"
    if "seg = a @ js ''--'' @ b" and "\<not> sublist (js ''--'') (0x2D # b)" for a b
  proof -
    have "\<forall>x\<in>set (a @ js ''--'' @ b). dot x"
      using assms(3) that(1) by (simp add: dot_def)
    from exec_idRegex_Some [OF this that(2)]
    obtain w r c' where "exec idRegex (a @ js ''--'' @ b) = Some (w, r, c')"
      and "c' 2 = Some (takeWhile notQA b)"
      by blast
    then have "exec idRegex seg = Some (w, r, c')" "c' 2 = Some (takeWhile notQA b)"
      by (simp_all add: that(1))
    moreover have "notQA = (\<lambda>x. x \<noteq> 0x3F \<and> x \<noteq> 0x26)"
      by (rule ext) (simp add: notQA_def)
    ultimately show ?thesis by (simp add: getQuestionIdFromUrl_def seg)
  qed
  have 2: "getQuestionIdFromUrl url = Some seg" if "\<not> sublist (js ''--'') seg"
    using exec_idRegex_None [OF that] by (simp add: getQuestionIdFromUrl_def seg js_Nil)
  show ?thesis using 1 2 last_separator by blast
qed

lemma sublist_simps:
  "sublist xs [] \<longleftrightarrow> xs = []"
  "sublist xs (y # ys) \<longleftrightarrow> prefix xs (y # ys) \<or> sublist xs ys"
  by (auto simp: sublist_Cons_right)

theorem getQuestionIdFromUrl_identifier_witness:
  "getQuestionIdFromUrl (js ''https://fatebook.io/q/will-x--abc123?foo=1'') = Some (js ''abc123'')
   \<and> getQuestionIdFromUrl (js ''https://fatebook.io/q/abc123'') = Some (js ''abc123'')"
proof -
  have "js ''https://fatebook.io/q/will-x--abc123?foo=1''
          = js ''will-x--abc123?foo=1'' \<or>
        js ''https://fatebook.io/q/will-x--abc123?foo=1''
          = js ''https://fatebook.io/q'' @ 0x2F # js ''will-x--abc123?foo=1''"
    and "0x2F \<notin> set (js ''will-x--abc123?foo=1'')"
    and "\<forall>x\<in>set (js ''will-x--abc123?foo=1''). \<not> lineTerminator x"
    by (simp_all add: js_Cons js_Nil lineTerminator_def)
  from getQuestionIdFromUrl_identifier [OF this]
  have "js ''will-x--abc123?foo=1'' = js ''will-x'' @ js ''--'' @ js ''abc123?foo=1''
        \<and> \<not> sublist (js ''--'') (0x2D # js ''abc123?foo=1'') \<longrightarrow>
        getQuestionIdFromUrl (js ''https://fatebook.io/q/will-x--abc123?foo=1'')
          = Some (takeWhile (\<lambda>x. x \<noteq> 0x3F \<and> x \<noteq> 0x26) (js ''abc123?foo=1''))"
    by blast
  then have 1: "getQuestionIdFromUrl (js ''https://fatebook.io/q/will-x--abc123?foo=1'')
      = Some (js ''abc123'')"
    by (simp add: js_Cons js_Nil sublist_simps)
  have "js ''https://fatebook.io/q/abc123'' = js ''abc123'' \<or>
        js ''https://fatebook.io/q/abc123'' = js ''https://fatebook.io/q'' @ 0x2F # js ''abc123''"
    and "0x2F \<notin> set (js ''abc123'')"
    and "\<forall>x\<in>set (js ''abc123''). \<not> lineTerminator x"
    by (simp_all add: js_Cons js_Nil lineTerminator_def)
  from getQuestionIdFromUrl_identifier [OF this]
  have "\<not> sublist (js ''--'') (js ''abc123'') \<longrightarrow>
        getQuestionIdFromUrl (js ''https://fatebook.io/q/abc123'') = Some (js ''abc123'')"
    by blast
  then have 2: "getQuestionIdFromUrl (js ''https://fatebook.io/q/abc123'') = Some (js ''abc123'')"
    by (simp add: js_Cons js_Nil sublist_simps)
  show ?thesis using 1 2 by simp
qed

text \<open>
  C3 as stated fails for a segment with a line break after the separator: \<^verbatim>\<open>.\<close> does not
  match the line break and \<^verbatim>\<open>$\<close> matches at the end only, so nothing matches and the
  whole segment \<open>a--b\nc\<close> is returned, not the \<open>b\nc\<close> after the separator.
\<close>

theorem getQuestionIdFromUrl_line_break:
  "getQuestionIdFromUrl (js ''https://fatebook.io/q/a--b'' @ [0x0A] @ js ''c'')
     = Some (js ''a--b'' @ [0x0A] @ js ''c'')
   \<and> getQuestionIdFromUrl (js ''https://fatebook.io/q/a--b'' @ [0x0A] @ js ''c'')
     \<noteq> Some (takeWhile (\<lambda>x. x \<noteq> 0x3F \<and> x \<noteq> 0x26) (js ''b'' @ [0x0A] @ js ''c''))"
  by (simp add: getQuestionIdFromUrl_def idRegex_def lastIndexOf_def substring_def rx
      dot_def lineTerminator_def js_Cons js_Nil)


section \<open>The text that \<open>enhanceFatebookLink\<close> returns\<close>



section \<open>The flag that \<open>checkLoginStatus\<close> sets\<close>

text \<open>
  C5 (amended). After \<^verbatim>\<open>checkLoginStatus\<close> the flag is false when the fetch was
  rejected. In the copy of lines 622-631 it is true exactly when the fetch gave a response
  whose body is a JSON object with a \<^verbatim>\<open>user\<close> field; in the copy of lines 238-247 it is
  true exactly when the fetch gave a response whose status is not 401.
\<close>

theorem checkLoginStatus_flag:
  "(isLoggedIn (checkLoginStatus_622 f s) \<longleftrightarrow>
      (\<exists>response data. f = Responded response \<and> body response = Json data
         \<and> field data (js ''user'') \<noteq> None))
   \<and> (isLoggedIn (checkLoginStatus_238 f s) \<longleftrightarrow>
      (\<exists>response. f = Responded response \<and> status response \<noteq> 401))
   \<and> (f = Rejected \<longrightarrow>
      \<not> isLoggedIn (checkLoginStatus_622 f s) \<and> \<not> isLoggedIn (checkLoginStatus_238 f s))"
proof -
  have "field JNull (js ''user'') = None" by simp
  then show ?thesis
    by (cases f; cases "body (case f of Responded r \<Rightarrow> r)")
       (auto simp: checkLoginStatus_622_def checkLoginStatus_238_def)
qed

theorem checkLoginStatus_flag_witness:
  "\<not> isLoggedIn (checkLoginStatus_622 Rejected (afterOnload [] ()))
   \<and> \<not> isLoggedIn (checkLoginStatus_238 Rejected (afterOnload [] ()))
   \<and> isLoggedIn (checkLoginStatus_622
        (Responded \<lparr> status = 200, body = Json (JObj [(js ''user'', JObj [])]) \<rparr>) (afterOnload [] ()))
   \<and> \<not> isLoggedIn (checkLoginStatus_238
        (Responded \<lparr> status = 401, body = NotJson \<rparr>) (afterOnload [] ()))"
proof -
  have 1: "\<not> isLoggedIn (checkLoginStatus_622 Rejected (afterOnload [] ()))
      \<and> \<not> isLoggedIn (checkLoginStatus_238 Rejected (afterOnload [] ()))"
    using checkLoginStatus_flag [of Rejected "afterOnload [] ()"] by simp
  have 2: "isLoggedIn (checkLoginStatus_622
        (Responded \<lparr> status = 200, body = Json (JObj [(js ''user'', JObj [])]) \<rparr>) (afterOnload [] ()))"
    using checkLoginStatus_flag
      [of "Responded \<lparr> status = 200, body = Json (JObj [(js ''user'', JObj [])]) \<rparr>" "afterOnload [] ()"]
    by simp
  have 3: "\<not> isLoggedIn (checkLoginStatus_238
        (Responded \<lparr> status = 401, body = NotJson \<rparr>) (afterOnload [] ()))"
    using checkLoginStatus_flag [of "Responded \<lparr> status = 401, body = NotJson \<rparr>" "afterOnload [] ()"]
    by simp
  show ?thesis using 1 2 3 by simp
qed

text \<open>
  C5 as stated fails for the copy of lines 238-247: a response with status 200 whose
  JSON has no \<^verbatim>\<open>user\<close> field sets the flag.
\<close>

theorem checkLoginStatus_238_without_user:
  "isLoggedIn (checkLoginStatus_238
      (Responded \<lparr> status = 200, body = Json (JObj [(js ''title'', JStr (js ''Rain?''))]) \<rparr>)
      (afterOnload [] ()))
   \<and> field (JObj [(js ''title'', JStr (js ''Rain?''))]) (js ''user'') = None"
  by (simp add: checkLoginStatus_238_def js_Cons js_Nil)


section \<open>What \<open>handleIframeMessage\<close> changes\<close>

text \<open>The width and the height of every element, and a host for the examples.\<close>

definition sizes :: "'a plugin_scheme \<Rightarrow> ref \<Rightarrow> jsstring \<times> jsstring" where
  "sizes s = (\<lambda>e. (styleWidth (elements s e), styleHeight (elements s e)))"

lemma sizes_closePredictionModal: "sizes (outcomeState (closePredictionModal s)) = sizes s"
  by (auto simp: closePredictionModal_def sizes_def outcomeState_def consoleLog_def setElement_def
      Let_def split: option.splits)

lemma sizes_handlePredictionCreated:
  "sizes (outcomeState (handlePredictionCreated h l s)) = sizes s"
  by (auto simp: handlePredictionCreated_def sizes_def outcomeState_def setValue_def
      Let_def split: option.splits)

lemma sizes_andThen:
  assumes "\<And>s. sizes (outcomeState (f s)) = sizes s"
  shows "sizes (outcomeState (andThen r f)) = sizes (outcomeState r)"
  using assms by (cases r) (auto simp: andThen_def outcomeState_def)

lemma sizes_assignSrc: "sizes (outcomeState (assignSrc h v i s)) = sizes s"
  by (auto simp: assignSrc_def sizes_def outcomeState_def setElement_def
      split: target.splits json.splits)

lemma action_names: "js ''load-url'' \<noteq> js ''resize_iframe''"
  "js ''load-url'' \<noteq> js ''prediction_cancel''"
  "js ''load-url'' \<noteq> js ''prediction_create_success''"
  by (simp_all add: js_Cons)

text \<open>
  C2. \<^verbatim>\<open>handleIframeMessage\<close> never runs the two assignments of the resize branch: for
  every message and state the width and the height of every element are the same after
  the call, also when the call throws. Where the test \<^verbatim>\<open>action === 'resize_iframe'\<close> is
  reached, the action is \<^verbatim>\<open>'load-url'\<close>, and the outcome is that of the other arm, the
  assignment of \<^verbatim>\<open>src\<close>.
\<close>

theorem handleIframeMessage_never_resizes:
  "(\<forall>e. styleWidth (elements (outcomeState (handleIframeMessage h data s)) e)
            = styleWidth (elements s e)
       \<and> styleHeight (elements (outcomeState (handleIframeMessage h data s)) e)
            = styleHeight (elements s e))
   \<and> (\<forall>d iframe. data = Some d \<and> truthy (isFatebook data)
         \<and> field d (js ''action'') = Some (JStr (js ''load-url''))
         \<and> getWebviewByEmbedId h (field d (js ''embedId'')) s = Some iframe
       \<longrightarrow> handleIframeMessage h data s = assignSrc h (restSrc d s) iframe s)
   \<and> (\<forall>d. data = Some d \<and> field d (js ''action'') = Some (JStr (js ''resize_iframe''))
       \<longrightarrow> handleIframeMessage h data s = Returned s
           \<or> handleIframeMessage h data s
               = Returned (consoleLog (js ''Unhandled Fatebook action: resize_iframe'') s))"
proof -
  have "sizes (outcomeState (handleIframeMessage h data s)) = sizes s"
    by (auto simp: handleIframeMessage_def Let_def sizes_closePredictionModal
        sizes_handlePredictionCreated sizes_andThen sizes_assignSrc action_names
        split: option.splits)
       (simp_all add: outcomeState_def sizes_def consoleLog_def)
  then have "\<forall>e. styleWidth (elements (outcomeState (handleIframeMessage h data s)) e)
            = styleWidth (elements s e)
       \<and> styleHeight (elements (outcomeState (handleIframeMessage h data s)) e)
            = styleHeight (elements s e)"
    by (auto simp: sizes_def fun_eq_iff)
  moreover have "handleIframeMessage h data s = assignSrc h (restSrc d s) iframe s"
    if "data = Some d" "truthy (isFatebook data)"
      "field d (js ''action'') = Some (JStr (js ''load-url''))"
      "getWebviewByEmbedId h (field d (js ''embedId'')) s = Some iframe" for d iframe
    using that by (simp add: handleIframeMessage_def Let_def action_names)
  moreover have "handleIframeMessage h data s = Returned s
           \<or> handleIframeMessage h data s
               = Returned (consoleLog (js ''Unhandled Fatebook action: resize_iframe'') s)"
    if "data = Some d" "field d (js ''action'') = Some (JStr (js ''resize_iframe''))" for d
    using that by (auto simp: handleIframeMessage_def Let_def interpolate_def js_Cons js_Nil)
  ultimately show ?thesis by blast
qed

definition plainHost :: host where
  "plainHost = \<lparr> numberToString = (\<lambda>n. js ''0''), percent = (\<lambda>v. js ''0'') \<rparr>"

theorem handleIframeMessage_never_resizes_witness:
  "handleIframeMessage plainHost
     (Some (JObj [(js ''isFatebook'', JBool True), (js ''action'', JStr (js ''load-url'')),
                  (js ''embedId'', JStr (js ''predict-modal'')),
                  (js ''box'', JObj [(js ''width'', JNum 100), (js ''height'', JNum 50)]),
                  (js ''src'', JStr (js ''https://fatebook.io/embed/x''))]))
     (afterOnload [] ())
   = Returned (setElement 0 (\<lambda>e. e\<lparr>src := js ''https://fatebook.io/embed/x''\<rparr>) (afterOnload [] ()))"
proof -
  let ?d = "JObj [(js ''isFatebook'', JBool True), (js ''action'', JStr (js ''load-url'')),
                  (js ''embedId'', JStr (js ''predict-modal'')),
                  (js ''box'', JObj [(js ''width'', JNum 100), (js ''height'', JNum 50)]),
                  (js ''src'', JStr (js ''https://fatebook.io/embed/x''))]"
  have "Some ?d = Some ?d \<and> truthy (isFatebook (Some ?d))
      \<and> field ?d (js ''action'') = Some (JStr (js ''load-url''))
      \<and> getWebviewByEmbedId plainHost (field ?d (js ''embedId'')) (afterOnload [] ()) = Some (Element 0)"
    by (simp add: isFatebook_def getWebviewByEmbedId_def interpolate_def afterOnload_def
        js_Cons js_Nil)
  with handleIframeMessage_never_resizes [of plainHost "Some ?d" "afterOnload [] ()"]
  have "handleIframeMessage plainHost (Some ?d) (afterOnload [] ())
      = assignSrc plainHost (restSrc ?d (afterOnload [] ())) (Element 0) (afterOnload [] ())"
    by blast
  then show ?thesis
    by (simp add: assignSrc_def restSrc_def interpolate_def js_Cons js_Nil)
qed

text \<open>
  Of C10 this much holds: a message without data, with \<^verbatim>\<open>null\<close> as data or without a
  truthy \<^verbatim>\<open>isFatebook\<close> returns at once and leaves the state as it is, and so does a
  \<^verbatim>\<open>load-url\<close> message for which \<^verbatim>\<open>getWebviewByEmbedId\<close> returns \<^verbatim>\<open>null\<close>, as it does
  when the key is neither one of the three embeds nor a name that the table inherits.
\<close>

lemma handleIframeMessage_ignores:
  "handleIframeMessage h None s = Returned s"
  "handleIframeMessage h (Some JNull) s = Returned s"
  "\<not> truthy (field d (js ''isFatebook'')) \<Longrightarrow> handleIframeMessage h (Some d) s = Returned s"
  "field d (js ''action'') = Some (JStr (js ''load-url'')) \<Longrightarrow>
   getWebviewByEmbedId h (field d (js ''embedId'')) s = None \<Longrightarrow>
   handleIframeMessage h (Some d) s = Returned s"
  by (auto simp: handleIframeMessage_def isFatebook_def Let_def action_names split: json.splits)

lemma getWebviewByEmbedId_unknown:
  assumes "interpolate h embedId \<notin> {js ''predict-modal'', js ''question-loader'', js ''login''}"
    and "interpolate h embedId \<notin> set objectPrototypeNames"
    and "interpolate h embedId \<noteq> js ''src'' \<or> \<not> truthy (objectPrototypeSrc s)"
  shows "getWebviewByEmbedId h embedId s = None"
  using assms by (auto simp: getWebviewByEmbedId_def Let_def)

text \<open>
  C10 fails for an \<^verbatim>\<open>embedId\<close> that names a property which the table of
  \<^verbatim>\<open>getWebviewByEmbedId\<close> inherits. For the message
  \<^verbatim>\<open>{isFatebook: true, action: 'load-url', embedId: '__proto__', src: 'x'}\<close> the lookup
  returns \<^verbatim>\<open>Object.prototype\<close>, not \<^verbatim>\<open>null\<close>, and the handler gives it a property
  \<^verbatim>\<open>src\<close>. A later \<^verbatim>\<open>load-url\<close> message with the \<^verbatim>\<open>embedId\<close> \<^verbatim>\<open>'src'\<close> then finds the
  string \<^verbatim>\<open>'x'\<close> and throws on the assignment to it.
\<close>

theorem handleIframeMessage_inherited_embedId:
  "getWebviewByEmbedId plainHost (Some (JStr (js ''__proto__''))) (afterOnload [] ())
     = Some (Builtin (js ''__proto__''))
   \<and> handleIframeMessage plainHost
       (Some (JObj [(js ''isFatebook'', JBool True), (js ''action'', JStr (js ''load-url'')),
                    (js ''embedId'', JStr (js ''__proto__'')), (js ''src'', JStr (js ''x''))]))
       (afterOnload [] ())
     = Returned ((afterOnload [] ())\<lparr>objectPrototypeSrc := Some (JStr (js ''x''))\<rparr>)
   \<and> handleIframeMessage plainHost
       (Some (JObj [(js ''isFatebook'', JBool True), (js ''action'', JStr (js ''load-url'')),
                    (js ''embedId'', JStr (js ''src''))]))
       ((afterOnload [] ())\<lparr>objectPrototypeSrc := Some (JStr (js ''x''))\<rparr>)
     = Thrown TypeError ((afterOnload [] ())\<lparr>objectPrototypeSrc := Some (JStr (js ''x''))\<rparr>)"
  by (simp add: handleIframeMessage_def getWebviewByEmbedId_def isFatebook_def assignSrc_def
      restSrc_def interpolate_def afterOnload_def objectPrototypeNames_def Let_def js_Cons js_Nil)


section \<open>What a pass over a note changes\<close>

























section \<open>When the debounced function runs\<close>

text \<open>
  Every run of \<open>func\<close> stands in the trace right after the call whose arguments it
  gets, and that call is at least \<open>wait\<close> milliseconds older.
\<close>

definition runsAfterQuiet :: "nat \<Rightarrow> 'a observed list \<Rightarrow> bool" where
  "runsAfterQuiet wait tr \<longleftrightarrow>
     (\<forall>i<length tr. \<forall>t a. tr ! i = Ran t a \<longrightarrow>
        0 < i \<and> (\<exists>t0. tr ! (i - 1) = Called t0 a \<and> t0 + wait \<le> t))"

text \<open>At most one timeout is pending: the one of the last call, named by \<^verbatim>\<open>timeout\<close>.\<close>

definition onePending :: "nat \<Rightarrow> 'a debounced \<Rightarrow> bool" where
  "onePending wait d \<longleftrightarrow>
     pending d = [] \<or>
     (\<exists>i t0 a tr. pending d = [(i, t0 + wait, a)] \<and> timeout d = Some i
        \<and> trace d = tr @ [Called t0 a])"

lemma runsAfterQuiet_Called:
  assumes "runsAfterQuiet wait tr"
  shows "runsAfterQuiet wait (tr @ [Called t a])"
  unfolding runsAfterQuiet_def
proof (intro allI impI)
  fix i t' a' assume i: "i < length (tr @ [Called t a])" and r: "(tr @ [Called t a]) ! i = Ran t' a'"
  then have "i < length tr" by (cases "i = length tr") auto
  then have "tr ! i = Ran t' a'" using r by (simp add: nth_append)
  then have "0 < i \<and> (\<exists>t0. tr ! (i - 1) = Called t0 a' \<and> t0 + wait \<le> t')"
    using assms \<open>i < length tr\<close> by (auto simp: runsAfterQuiet_def)
  then show "0 < i \<and> (\<exists>t0. (tr @ [Called t a]) ! (i - 1) = Called t0 a' \<and> t0 + wait \<le> t')"
    using \<open>i < length tr\<close> by (auto simp: nth_append)
qed

lemma runsAfterQuiet_Ran:
  assumes "runsAfterQuiet wait (tr @ [Called t0 a])" and "t0 + wait \<le> t"
  shows "runsAfterQuiet wait (tr @ [Called t0 a] @ [Ran t a])"
  unfolding runsAfterQuiet_def
proof (intro allI impI)
  fix i t' a'
  assume i: "i < length (tr @ [Called t0 a] @ [Ran t a])"
    and r: "(tr @ [Called t0 a] @ [Ran t a]) ! i = Ran t' a'"
  show "0 < i \<and> (\<exists>t1. (tr @ [Called t0 a] @ [Ran t a]) ! (i - 1) = Called t1 a' \<and> t1 + wait \<le> t')"
  proof (cases "i = Suc (length tr)")
    case True
    then have "t' = t" "a' = a" using r by (simp_all add: nth_append)
    then show ?thesis using True assms(2) by (simp add: nth_append)
  next
    case False
    then have less: "i < length (tr @ [Called t0 a])" using i by simp
    then have "(tr @ [Called t0 a]) ! i = Ran t' a'"
      using r by (metis append_assoc nth_append)
    then have "0 < i \<and> (\<exists>t1. (tr @ [Called t0 a]) ! (i - 1) = Called t1 a' \<and> t1 + wait \<le> t')"
      using assms(1) less by (auto simp: runsAfterQuiet_def)
    moreover have "(tr @ [Called t0 a] @ [Ran t a]) ! (i - 1) = (tr @ [Called t0 a]) ! (i - 1)"
      using less by (metis append_assoc less_imp_diff_less nth_append)
    ultimately show ?thesis by simp
  qed
qed

lemma act_invariant:
  assumes "runsAfterQuiet wait (trace d)" and "onePending wait d" and "act wait a d = Some d'"
  shows "runsAfterQuiet wait (trace d') \<and> onePending wait d'"
proof (cases a)
  case (Advance n)
  then show ?thesis using assms by (auto simp: onePending_def)
next
  case (Call args)
  have cleared: "pending (clearTimeout (timeout d) (d\<lparr>trace := trace d @ [Called (now d) args]\<rparr>)) = []"
    using assms(2) by (auto simp: onePending_def clearTimeout_def split: option.splits)
  have "trace d' = trace d @ [Called (now d) args]"
    and "pending d' = [(timeoutsMade d, now d + wait, args)]"
    and "timeout d' = Some (timeoutsMade d)"
    using assms(3) Call cleared
    by (auto simp: executedFunction_def setTimeout_def clearTimeout_def Let_def split: option.splits)
  then show ?thesis
    using assms(1) by (auto simp: onePending_def runsAfterQuiet_Called)
next
  case (Fire i)
  then obtain j due args where found: "find (\<lambda>(j, due, args). j = i) (pending d) = Some (j, due, args)"
    and due: "due \<le> now d"
    and d': "d' = later args (d\<lparr>pending := filter (\<lambda>(j, due, args). j \<noteq> i) (pending d)\<rparr>)"
    using assms(3) by (auto split: option.splits if_splits)
  from found have "pending d \<noteq> []" by auto
  then obtain k t0 a0 tr where p: "pending d = [(k, t0 + wait, a0)]" and "timeout d = Some k"
    and tr: "trace d = tr @ [Called t0 a0]"
    using assms(2) by (auto simp: onePending_def)
  with found have "k = i" "due = t0 + wait" "args = a0" by (auto split: if_splits)
  then have "trace d' = tr @ [Called t0 a0] @ [Ran (now d) a0]" and "pending d' = []"
    using d' p tr by (auto simp: later_def clearTimeout_def Let_def split: option.splits)
  moreover have "runsAfterQuiet wait (tr @ [Called t0 a0] @ [Ran (now d) a0])"
    using assms(1) tr due \<open>due = t0 + wait\<close> by (intro runsAfterQuiet_Ran) auto
  ultimately show ?thesis by (simp add: onePending_def)
qed

lemma acts_invariant:
  assumes "acts wait as d = Some d'" and "runsAfterQuiet wait (trace d)" and "onePending wait d"
  shows "runsAfterQuiet wait (trace d') \<and> onePending wait d'"
  using assms
proof (induction as arbitrary: d)
  case Nil
  then show ?case by simp
next
  case (Cons a as)
  then obtain d1 where "act wait a d = Some d1" "acts wait as d1 = Some d'"
    by (auto split: option.splits)
  then show ?case using Cons.IH [of d1] act_invariant [of wait d a d1] Cons.prems by blast
qed

text \<open>
  C6. Whatever the event loop does with a debounced function, starting with no timeout
  set: every run of \<open>func\<close> comes right after the call whose arguments it gets, with
  no call and no run in between, and at least \<open>wait\<close> milliseconds after that call. So
  a call that is followed by another call before its timeout fires never runs, and a
  call runs at most once. At every moment at most one timeout is pending: that of the
  last call, due \<open>wait\<close> after it.
\<close>

theorem debounce_runs_after_quiet:
  assumes "acts wait as (fresh start) = Some d"
  shows "(\<forall>i<length (trace d). \<forall>t a. trace d ! i = Ran t a \<longrightarrow>
            0 < i \<and> (\<exists>t0. trace d ! (i - 1) = Called t0 a \<and> t0 + wait \<le> t))
     \<and> length (pending d) \<le> 1
     \<and> (\<forall>i due a. (i, due, a) \<in> set (pending d) \<longrightarrow>
            timeout d = Some i \<and> (\<exists>tr t0. trace d = tr @ [Called t0 a] \<and> due = t0 + wait))"
proof -
  have "runsAfterQuiet wait (trace (fresh start :: 'a debounced))"
    and "onePending wait (fresh start :: 'a debounced)"
    by (simp_all add: runsAfterQuiet_def onePending_def fresh_def)
  from acts_invariant [OF assms this]
  have "runsAfterQuiet wait (trace d)" and "onePending wait d" by simp_all
  then show ?thesis
    unfolding runsAfterQuiet_def onePending_def by auto
qed

theorem debounce_runs_after_quiet_witness:
  "\<exists>d. acts 60000 [Call (1 :: nat), Advance 10, Call 2, Advance 60000, Fire 1] (fresh 0) = Some d
     \<and> trace d = [Called 0 1, Called 10 2, Ran 60010 2]
     \<and> length (pending d) \<le> 1"
proof -
  let ?d = "\<lparr> now = 60010, timeout = Some 1, pending = [], timeoutsMade = 2,
              trace = [Called 0 (1 :: nat), Called 10 2, Ran 60010 2] \<rparr>"
  have run: "acts 60000 [Call (1 :: nat), Advance 10, Call 2, Advance 60000, Fire 1] (fresh 0)
      = Some ?d"
    by (simp add: fresh_def executedFunction_def clearTimeout_def setTimeout_def later_def Let_def)
  from debounce_runs_after_quiet [OF run] have "length (pending ?d) \<le> 1" by blast
  with run show ?thesis by auto
qed

text \<open>A timeout does not fire before its delay has passed.\<close>

lemma debounce_no_run_before_wait:
  "acts 60000 [Call (1 :: nat), Advance 59999, Fire 0] (fresh 0) = None"
  by (simp add: fresh_def executedFunction_def clearTimeout_def setTimeout_def later_def Let_def)


section \<open>The first poll that finds the user logged in\<close>

text \<open>
  What holds in every state of the login flow: a timer or a waiting callback exists only
  once the login page does, and the names of all timers made are below the count.
\<close>

definition timersKnown :: "'a plugin_scheme \<Rightarrow> bool" where
  "timersKnown s \<longleftrightarrow>
     (loginWebview s = None \<longrightarrow> intervals s = [] \<and> polling s = [])
     \<and> (\<forall>t\<in>set (intervals s) \<union> set (polling s). t < timers s)"

lemma checkLoginStatus_238_fields [simp]:
  "loginWebview (checkLoginStatus_238 f s) = loginWebview s"
  "intervals (checkLoginStatus_238 f s) = intervals s"
  "polling (checkLoginStatus_238 f s) = polling s"
  "timers (checkLoginStatus_238 f s) = timers s"
  "loginCallbacks (checkLoginStatus_238 f s) = loginCallbacks s"
  "resolved (checkLoginStatus_238 f s) = resolved s"
  by (auto simp: checkLoginStatus_238_def split: fetched.splits)

lemma openLoginModal_fields:
  "polling (openLoginModal s) = polling s"
  "loginCallbacks (openLoginModal s) = loginCallbacks s"
  "resolved (openLoginModal s) = resolved s"
  "timers s \<le> timers (openLoginModal s)"
  "set (intervals (openLoginModal s)) \<subseteq> set (intervals s) \<union> {timers s}"
  "intervals (openLoginModal s) \<noteq> intervals s \<longrightarrow> timers (openLoginModal s) = Suc (timers s)"
  "loginWebview s \<noteq> None \<longrightarrow> loginWebview (openLoginModal s) \<noteq> None"
  "intervals (openLoginModal s) \<noteq> intervals s \<longrightarrow> loginWebview (openLoginModal s) \<noteq> None"
  by (auto simp: openLoginModal_def setupWebview_def setElement_def Let_def
      split: option.splits prod.splits)

lemma timersKnown_openLoginModal:
  assumes "timersKnown s"
  shows "timersKnown (openLoginModal s)"
proof -
  have 1: "loginWebview (openLoginModal s) = None \<longrightarrow>
      intervals (openLoginModal s) = [] \<and> polling (openLoginModal s) = []"
    using assms openLoginModal_fields(1,7,8) [of s] by (auto simp: timersKnown_def)
  have 2: "t < timers (openLoginModal s)"
    if "t \<in> set (intervals (openLoginModal s)) \<union> set (polling (openLoginModal s))" for t
  proof (cases "intervals (openLoginModal s) = intervals s")
    case True
    then have "t < timers s"
      using that assms openLoginModal_fields(1) [of s] by (auto simp: timersKnown_def)
    then show ?thesis using openLoginModal_fields(4) [of s] by linarith
  next
    case False
    then have "timers (openLoginModal s) = Suc (timers s)"
      using openLoginModal_fields(6) by blast
    moreover have "t \<in> set (intervals s) \<union> set (polling s) \<or> t = timers s"
      using that openLoginModal_fields(1,5) [of s] by auto
    moreover have "\<forall>u\<in>set (intervals s) \<union> set (polling s). u < timers s"
      using assms by (simp add: timersKnown_def)
    ultimately show ?thesis by (metis less_Suc_eq)
  qed
  show ?thesis using 1 2 by (simp add: timersKnown_def)
qed

lemma pollResumes_fields:
  "set (intervals (outcomeState (pollResumes t f s))) \<subseteq> set (intervals s)"
  "polling (outcomeState (pollResumes t f s)) = polling s"
  "timers (outcomeState (pollResumes t f s)) = timers s"
  "loginWebview (outcomeState (pollResumes t f s)) = loginWebview s"
  by (auto simp: pollResumes_def outcomeState_def setElement_def Let_def split: option.splits)

lemma timersKnown_step:
  assumes "timersKnown s" and "step e s = Some s'"
  shows "timersKnown s'"
proof (cases e)
  case (CheckReturns f)
  then show ?thesis using assms by (auto simp: timersKnown_def)
next
  case (EnsureReturns p f)
  have base: "timersKnown (checkLoginStatus_238 f s)"
    using assms(1) by (simp add: timersKnown_def)
  then have "timersKnown ((checkLoginStatus_238 f s)
      \<lparr>loginCallbacks := loginCallbacks (checkLoginStatus_238 f s) @ [p]\<rparr>)"
    by (simp add: timersKnown_def)
  from timersKnown_openLoginModal [OF this] base show ?thesis
    using assms(2) EnsureReturns by (auto simp: ensureLoggedIn_def Let_def timersKnown_def)
next
  case OpenLoginModal
  then show ?thesis using assms timersKnown_openLoginModal by auto
next
  case (TimerFires t)
  then show ?thesis using assms by (auto simp: timersKnown_def split: if_splits)
next
  case (PollReturns t f)
  let ?s1 = "s\<lparr>polling := remove1 t (polling s)\<rparr>"
  have "timersKnown ?s1"
    using assms(1) by (auto simp: timersKnown_def dest: notin_set_remove1)
  moreover have "s' = outcomeState (pollResumes t f ?s1)"
    using assms(2) PollReturns by (auto split: if_splits)
  ultimately show ?thesis
    using pollResumes_fields [of t f ?s1] by (auto simp: timersKnown_def)
qed

lemma run_append:
  "run (es @ es') s = (case run es s of None \<Rightarrow> None | Some s' \<Rightarrow> run es' s')"
  by (induction es arbitrary: s) (auto split: option.splits)

lemma timersKnown_run:
  assumes "timersKnown s" and "run es s = Some s'"
  shows "timersKnown s'"
  using assms
proof (induction es arbitrary: s)
  case Nil
  then show ?case by simp
next
  case (Cons e es)
  then obtain s1 where "step e s = Some s1" "run es s1 = Some s'" by (auto split: option.splits)
  then show ?case using Cons.IH [of s1] timersKnown_step Cons.prems(1) by blast
qed

text \<open>A timer that is cleared, and whose name is below the count, stays cleared.\<close>

lemma cleared_step:
  assumes "t \<notin> set (intervals s)" and "t < timers s" and "step e s = Some s'"
  shows "t \<notin> set (intervals s') \<and> t < timers s'"
proof (cases e)
  case (CheckReturns f)
  then show ?thesis using assms by auto
next
  case (EnsureReturns p f)
  let ?s2 = "(checkLoginStatus_238 f s)\<lparr>loginCallbacks := loginCallbacks (checkLoginStatus_238 f s) @ [p]\<rparr>"
  have "t \<notin> set (intervals (openLoginModal ?s2)) \<and> t < timers (openLoginModal ?s2)"
    using assms(1,2) openLoginModal_fields(4,5) [of ?s2] by fastforce
  moreover have "s' = ensureLoggedIn p f s" using assms(3) EnsureReturns by simp
  ultimately show ?thesis
    unfolding ensureLoggedIn_def Let_def using assms(1,2) by auto
next
  case OpenLoginModal
  then show ?thesis using assms openLoginModal_fields(4,5) [of s] by fastforce
next
  case (TimerFires u)
  then show ?thesis using assms by (auto split: if_splits)
next
  case (PollReturns u f)
  let ?s1 = "s\<lparr>polling := remove1 u (polling s)\<rparr>"
  have "s' = outcomeState (pollResumes u f ?s1)"
    using assms(3) PollReturns by (auto split: if_splits)
  then show ?thesis using assms(1,2) pollResumes_fields(1,3) [of u f ?s1] by auto
qed

lemma cleared_run:
  assumes "t \<notin> set (intervals s)" and "t < timers s" and "run es s = Some s'"
  shows "t \<notin> set (intervals s') \<and> t < timers s'"
  using assms
proof (induction es arbitrary: s)
  case Nil
  then show ?case by simp
next
  case (Cons e es)
  then obtain s1 where "step e s = Some s1" "run es s1 = Some s'" by (auto split: option.splits)
  then show ?case using Cons.IH [of s1] cleared_step [of t s e s1] Cons.prems(1,2) by blast
qed

text \<open>A promise that is queued or resolved stays queued or resolved.\<close>

lemma kept_step:
  assumes "p \<in> set (loginCallbacks s) \<union> set (resolved s)" and "step e s = Some s'"
  shows "p \<in> set (loginCallbacks s') \<union> set (resolved s')"
proof (cases e)
  case (CheckReturns f)
  then show ?thesis using assms by auto
next
  case (EnsureReturns q f)
  then have "s' = ensureLoggedIn q f s" using assms(2) by simp
  then show ?thesis
    unfolding ensureLoggedIn_def Let_def using assms(1) by (auto simp: openLoginModal_fields)
next
  case OpenLoginModal
  then show ?thesis using assms by (auto simp: openLoginModal_fields)
next
  case (TimerFires u)
  then show ?thesis using assms by (auto split: if_splits)
next
  case (PollReturns u f)
  then have "s' = outcomeState (pollResumes u f (s\<lparr>polling := remove1 u (polling s)\<rparr>))"
    using assms(2) by (auto split: if_splits)
  then show ?thesis
    using assms(1)
    by (auto simp: pollResumes_def outcomeState_def setElement_def Let_def split: option.splits)
qed

lemma kept_run:
  assumes "p \<in> set (loginCallbacks s) \<union> set (resolved s)" and "run es s = Some s'"
  shows "p \<in> set (loginCallbacks s') \<union> set (resolved s')"
  using assms
proof (induction es arbitrary: s)
  case Nil
  then show ?case by simp
next
  case (Cons e es)
  then obtain s1 where "step e s = Some s1" "run es s1 = Some s'" by (auto split: option.splits)
  then show ?case using Cons.IH [of s1] kept_step [of p s e s1] Cons.prems(1) by blast
qed

lemma ensured_step:
  assumes "step (EnsureReturns p f) s = Some s'"
  shows "p \<in> set (loginCallbacks s') \<union> set (resolved s')"
proof -
  have "s' = ensureLoggedIn p f s" using assms by simp
  then show ?thesis
    unfolding ensureLoggedIn_def Let_def by (auto simp: openLoginModal_fields)
qed

lemma ensured_run:
  assumes "run es s = Some s'" and "EnsureReturns p f \<in> set es"
  shows "p \<in> set (loginCallbacks s') \<union> set (resolved s')"
  using assms
proof (induction es arbitrary: s)
  case Nil
  then show ?case by simp
next
  case (Cons e es)
  then obtain s1 where s1: "step e s = Some s1" "run es s1 = Some s'"
    by (auto split: option.splits)
  show ?case
  proof (cases "e = EnsureReturns p f")
    case True
    then show ?thesis using s1 ensured_step [of p f s s1] kept_run [of p s1 es s'] by blast
  next
    case False
    then show ?thesis using Cons.IH [of s1] s1 Cons.prems(2) by auto
  qed
qed

lemma checkLoginStatus_238_flag: 
  "isLoggedIn (checkLoginStatus_238 f s) = isLoggedIn (checkLoginStatus_238 f s')"
  by (auto simp: checkLoginStatus_238_def split: fetched.splits)

text \<open>
  C7. In every state that the login flow reaches from \<^verbatim>\<open>onload\<close>, when a callback of the
  polling timer \<open>t\<close> resumes from a check that finds the user logged in, that step clears
  the timer, resolves every promise in the queue and empties the queue. Every promise of
  an \<^verbatim>\<open>ensureLoggedIn\<close> before it is resolved then. Whatever follows, the timer \<open>t\<close> is not
  registered again and cannot fire, so it starts no further poll. (Callbacks of \<open>t\<close> that
  are already waiting for their fetch still resume.)
\<close>

theorem login_poll_settles:
  assumes "loaded s0" and "run es s0 = Some s" and "t \<in> set (polling s)"
    and "isLoggedIn (checkLoginStatus_238 f s)"
  shows "\<exists>s'. step (PollReturns t f) s = Some s'
      \<and> isLoggedIn s' \<and> t \<notin> set (intervals s')
      \<and> set (loginCallbacks s) \<subseteq> set (resolved s') \<and> loginCallbacks s' = []
      \<and> (\<forall>p f0. EnsureReturns p f0 \<in> set es \<longrightarrow> p \<in> set (resolved s'))
      \<and> (\<forall>es' s''. run es' s' = Some s'' \<longrightarrow>
            t \<notin> set (intervals s'') \<and> step (TimerFires t) s'' = None)"
proof -
  have "timersKnown s0" using assms(1) by (simp add: loaded_def timersKnown_def)
  then have known: "timersKnown s" using assms(2) by (rule timersKnown_run)
  then obtain login where login: "loginWebview s = Some login" and t: "t < timers s"
    using assms(3) by (cases "loginWebview s") (auto simp: timersKnown_def)
  let ?s1 = "s\<lparr>polling := remove1 t (polling s)\<rparr>"
  let ?s' = "outcomeState (pollResumes t f ?s1)"
  have logged: "isLoggedIn (checkLoginStatus_238 f ?s1)"
    using assms(4) checkLoginStatus_238_flag [of f s ?s1] by simp
  have step: "step (PollReturns t f) s = Some ?s'" using assms(3) by simp
  have fields: "isLoggedIn ?s'" "intervals ?s' = removeAll t (intervals s)"
    "resolved ?s' = resolved s @ loginCallbacks s" "loginCallbacks ?s' = []"
    "timers ?s' = timers s"
    using logged login
    by (auto simp: pollResumes_def outcomeState_def setElement_def Let_def split: option.splits)
  have queue: "p \<in> set (resolved ?s')" if "EnsureReturns p f0 \<in> set es" for p f0
    using ensured_run [OF assms(2) that] fields(3) by auto
  have later: "t \<notin> set (intervals s'') \<and> step (TimerFires t) s'' = None"
    if "run es' ?s' = Some s''" for es' s''
  proof -
    have "t \<notin> set (intervals ?s')" "t < timers ?s'" using fields t by simp_all
    from cleared_run [OF this that] show ?thesis by simp
  qed
  show ?thesis
    using step fields queue later by (intro exI [of _ ?s']) auto
qed

theorem login_poll_settles_witness:
  "\<exists>s. run [EnsureReturns 7 (Responded \<lparr> status = 401, body = NotJson \<rparr>), TimerFires 0,
             PollReturns 0 (Responded \<lparr> status = 200, body = NotJson \<rparr>)] (afterOnload [] ())
         = Some s
     \<and> 7 \<in> set (resolved s) \<and> 0 \<notin> set (intervals s) \<and> loginCallbacks s = []"
proof -
  let ?es = "[EnsureReturns 7 (Responded \<lparr> status = 401, body = NotJson \<rparr>), TimerFires 0]"
  let ?f = "Responded \<lparr> status = 200, body = NotJson \<rparr>"
  have "loaded (afterOnload [] () :: plugin)" by (simp add: loaded_def afterOnload_def)
  moreover obtain s where s: "run ?es (afterOnload [] () :: plugin) = Some s" and "0 \<in> set (polling s)"
    by (simp add: ensureLoggedIn_def checkLoginStatus_238_def openLoginModal_def setupWebview_def
        setElement_def afterOnload_def Let_def)
  moreover have "isLoggedIn (checkLoginStatus_238 ?f s)" by (simp add: checkLoginStatus_238_def)
  ultimately obtain s' where "step (PollReturns 0 ?f) s = Some s'"
    and "0 \<notin> set (intervals s')" "loginCallbacks s' = []"
    and "\<forall>p f0. EnsureReturns p f0 \<in> set ?es \<longrightarrow> p \<in> set (resolved s')"
    using login_poll_settles [of "afterOnload [] ()" ?es s 0 ?f] by blast
  moreover from this s have "run (?es @ [PollReturns 0 ?f]) (afterOnload [] ()) = Some s'"
    by (simp only: run_append option.case run.simps)
  ultimately show ?thesis by (intro exI [of _ s']) auto
qed


end
